theory Spec2Isabelle
  imports Main "HOL-Library.Word" "HOL-Library.Signed_Division"
begin

section \<open>Go integers, durations and instants\<close>

text \<open>
  Go's \<open>int\<close> is 64 bits wide on the usual platforms and \<open>time.Duration\<close> is an
  \<open>int64\<close> count of nanoseconds; both are signed and wrap around. They are 64-bit
  words read through \<open>sint\<close>. An instant (\<open>time.Time\<close>) is a number of nanoseconds on
  an unbounded clock.
\<close>

type_synonym go_int = "64 word"
type_synonym Duration = "64 word"
type_synonym Time = int

text \<open>The run-time panics of the modelled code.\<close>

datatype error = DivideByZero | TypeAssertion

text \<open>
  Go's integer division \<open>a / b\<close>: a run-time panic when the divisor is zero, otherwise
  the quotient truncated towards zero (and wrapped, for the one overflowing case
  \<open>MinInt64 / -1\<close>).
\<close>

definition quo :: "64 word \<Rightarrow> 64 word \<Rightarrow> error + 64 word" where
  "quo a b = (if b = 0 then Inl DivideByZero else Inr (word_of_int (sint a sdiv sint b)))"

definition minDuration :: Duration where
  "minDuration = word_of_int (- (2 ^ 63))"

definition maxDuration :: Duration where
  "maxDuration = word_of_int (2 ^ 63 - 1)"

text \<open>
  \<open>t.Sub(u)\<close> of package time: the duration \<open>t - u\<close>, replaced by the largest or
  smallest duration when the difference does not fit.
\<close>

definition Sub :: "Time \<Rightarrow> Time \<Rightarrow> Duration" where
  "Sub t u = (let d = t - u in
     if 2 ^ 63 - 1 < d then maxDuration
     else if d < - (2 ^ 63) then minDuration
     else word_of_int d)"

definition Nanosecond :: Duration where "Nanosecond = 1"
definition Second :: Duration where "Second = 1000000000 * Nanosecond"
definition Minute :: Duration where "Minute = 60 * Second"

section \<open>The token bucket (middleware/rate_limiter.go)\<close>

record RateLimiter =
  tokens :: go_int
  maxTokens :: go_int
  refillRate :: Duration
  lastRefillTime :: Time

text \<open>
  The first half of \<open>Allow\<close>: the clock has been read as \<open>now\<close>, the tokens earned since
  \<open>lastRefillTime\<close> are added and the balance is capped.
\<close>

definition refill :: "Time \<Rightarrow> RateLimiter \<Rightarrow> error + RateLimiter" where
  "refill now r =
     (let elapsed = Sub now (lastRefillTime r) in
      case quo elapsed (refillRate r) of
        Inl e \<Rightarrow> Inl e
      | Inr tokensToAdd \<Rightarrow>
          if 0 <s tokensToAdd then
            let r1 = r\<lparr>tokens := tokens r + tokensToAdd\<rparr>;
                r2 = (if maxTokens r1 <s tokens r1 then r1\<lparr>tokens := maxTokens r1\<rparr> else r1)
            in Inr (r2\<lparr>lastRefillTime := now\<rparr>)
          else Inr r)"

text \<open>\<open>Allow\<close>: refill, then take one token if there is one.\<close>

definition Allow :: "Time \<Rightarrow> RateLimiter \<Rightarrow> error + (bool \<times> RateLimiter)" where
  "Allow now r =
     (case refill now r of
        Inl e \<Rightarrow> Inl e
      | Inr r1 \<Rightarrow>
          if 0 <s tokens r1 then Inr (True, r1\<lparr>tokens := tokens r1 - 1\<rparr>)
          else Inr (False, r1))"

section \<open>The registry of limiters\<close>

text \<open>
  The store maps a client key to a pointer to its limiter. Limiter objects live in a
  memory of cells; \<open>brk\<close> is the next unused address, so that an allocation never
  returns an address handed out before.
\<close>

type_synonym ref = nat

record memory =
  cells :: "ref \<Rightarrow> RateLimiter"
  brk :: ref

definition new :: "RateLimiter \<Rightarrow> memory \<Rightarrow> ref \<times> memory" where
  "new l m = (brk m, m\<lparr>cells := (cells m)(brk m := l), brk := Suc (brk m)\<rparr>)"

text \<open>A memory in which no limiter has been allocated: every cell holds the zero value.\<close>

definition fresh_memory :: memory where
  "fresh_memory =
     \<lparr>cells = (\<lambda>_. \<lparr>tokens = 0, maxTokens = 0, refillRate = 0, lastRefillTime = 0\<rparr>),
      brk = 0\<rparr>"

record RateLimiterStore =
  limiters :: "string \<rightharpoonup> ref"

text \<open>
  \<open>NewRateLimiterStore\<close>: an empty map. The goroutine it starts runs \<open>cleanup\<close>, whose
  single pass is \<open>sweep\<close> below.
\<close>

definition NewRateLimiterStore :: RateLimiterStore where
  "NewRateLimiterStore = \<lparr>limiters = Map.empty\<rparr>"

text \<open>
  \<open>GetLimiter\<close>: the stored pointer when the key is known, otherwise a new limiter with
  a full bucket, stamped with the clock reading \<open>now\<close> and entered in the map.
\<close>

definition GetLimiter ::
  "string \<Rightarrow> go_int \<Rightarrow> Duration \<Rightarrow> Time \<Rightarrow> RateLimiterStore \<times> memory
     \<Rightarrow> ref \<times> RateLimiterStore \<times> memory" where
  "GetLimiter clientID maxTokens' refillRate' now sm =
     (case sm of (s, m) \<Rightarrow>
        (case limiters s clientID of
           Some limiter \<Rightarrow> (limiter, s, m)
         | None \<Rightarrow>
             (case new \<lparr>tokens = maxTokens', maxTokens = maxTokens',
                         refillRate = refillRate', lastRefillTime = now\<rparr> m of
                (limiter, m') \<Rightarrow>
                  (limiter, s\<lparr>limiters := (limiters s)(clientID \<mapsto> limiter)\<rparr>, m'))))"

text \<open>\<open>Allow\<close> called through a pointer: the limiter object is updated in place.\<close>

definition Allow_at :: "Time \<Rightarrow> ref \<Rightarrow> memory \<Rightarrow> error + (bool \<times> memory)" where
  "Allow_at now p m =
     (case Allow now (cells m p) of
        Inl e \<Rightarrow> Inl e
      | Inr (ok, r') \<Rightarrow> Inr (ok, m\<lparr>cells := (cells m)(p := r')\<rparr>))"

text \<open>
  One pass of \<open>cleanup\<close>, run at every tick with the clock reading \<open>now\<close>: the loop over
  the map, visiting the keys in the order \<open>ks\<close> that the map iteration happens to
  produce, deletes every limiter whose last refill is more than 30 minutes old.
\<close>

fun sweep :: "Time \<Rightarrow> string list \<Rightarrow> memory \<Rightarrow> RateLimiterStore \<Rightarrow> RateLimiterStore" where
  "sweep now [] m s = s"
| "sweep now (key # ks) m s =
     sweep now ks m
       (case limiters s key of
          None \<Rightarrow> s
        | Some limiter \<Rightarrow>
            if 30 * Minute <s Sub now (lastRefillTime (cells m limiter))
            then s\<lparr>limiters := (limiters s)(key := None)\<rparr>
            else s)"

section \<open>Responses (helper/response.go)\<close>

text \<open>A value of type \<open>interface{}\<close>, as far as the handlers tell its cases apart.\<close>

datatype any = AnyString string | AnyUUID "8 word list" | AnyBool bool

record ErrorInfo =
  Code :: string
  Message :: string
  Details :: string

record Response =
  Success :: bool
  Data :: "any option"
  Error :: "ErrorInfo option"

text \<open>
  The part of \<open>gin.Context\<close> the handlers touch: what \<open>ClientIP()\<close> and \<open>GetHeader\<close>
  return, the keys set by earlier handlers, the response writer, whether the chain was
  aborted, and how often \<open>Next()\<close> handed the request on. Of the response writer the
  record keeps the status (\<open>c.Writer.Status()\<close>, 200 until a handler sets another),
  whether the header has gone out (\<open>c.Writer.Written()\<close>), and the JSON values written to
  the body, in order.
\<close>

record Context =
  ClientIP :: string
  GetHeader :: "string \<Rightarrow> string"
  Keys :: "string \<rightharpoonup> any"
  status :: int
  committed :: bool
  body :: "Response list"
  aborted :: bool
  handed_on :: nat

text \<open>
  The context of a request no handler has answered yet: status 200, nothing sent.
\<close>

definition unanswered :: "Context \<Rightarrow> bool" where
  "unanswered c \<longleftrightarrow> status c = 200 \<and> \<not> committed c \<and> body c = []"

text \<open>
  gin's \<open>c.JSON(code, obj)\<close>, which is \<open>c.Render\<close> with the JSON renderer. It first calls
  \<open>c.Status(code)\<close>: the writer takes the status only when \<open>code\<close> is positive and the
  header has not gone out yet; once it has, the status already sent stays. Then the
  header goes out and, unless the status code forbids a body (1xx, 204, 304), the value
  is appended to the body.
\<close>

definition bodyAllowedForStatus :: "int \<Rightarrow> bool" where
  "bodyAllowedForStatus code \<longleftrightarrow>
     \<not> (100 \<le> code \<and> code \<le> 199) \<and> code \<noteq> 204 \<and> code \<noteq> 304"

definition Status :: "int \<Rightarrow> Context \<Rightarrow> Context" where
  "Status code c =
     (if 0 < code \<and> status c \<noteq> code \<and> \<not> committed c then c\<lparr>status := code\<rparr> else c)"

definition JSON :: "int \<Rightarrow> Response \<Rightarrow> Context \<Rightarrow> Context" where
  "JSON statusCode obj c =
     (let c1 = Status statusCode c in
      if bodyAllowedForStatus statusCode
      then c1\<lparr>committed := True, body := body c1 @ [obj]\<rparr>
      else c1\<lparr>committed := True\<rparr>)"

definition Abort :: "Context \<Rightarrow> Context" where
  "Abort c = c\<lparr>aborted := True\<rparr>"

definition Next :: "Context \<Rightarrow> Context" where
  "Next c = c\<lparr>handed_on := Suc (handed_on c)\<rparr>"

definition ErrorResponse :: "Context \<Rightarrow> int \<Rightarrow> string \<Rightarrow> string \<Rightarrow> Context" where
  "ErrorResponse c statusCode code message =
     JSON statusCode
       \<lparr>Success = False, Data = None,
        Error = Some \<lparr>Code = code, Message = message, Details = []\<rparr>\<rparr> c"

definition StatusTooManyRequests :: int where
  "StatusTooManyRequests = 429"

definition ContextKeyUserID :: string where
  "ContextKeyUserID = ''user_id''"

section \<open>The middleware constructors and their handlers\<close>

text \<open>
  What a handler closure captures: the store made by the constructor, \<open>maxRequests\<close>
  and the \<open>refillRate\<close> computed from the window (\<open>cl_refillRate\<close> here, as
  \<open>refillRate\<close> is the limiter's field).
\<close>

record closure =
  store :: RateLimiterStore
  maxRequests :: go_int
  cl_refillRate :: Duration

text \<open>
  Each of the four constructors makes its store and divides the window by
  \<open>maxRequests\<close> before it returns the handler; the division panics on zero.
\<close>

definition RateLimitMiddleware :: "go_int \<Rightarrow> Duration \<Rightarrow> error + closure" where
  "RateLimitMiddleware maxRequests' window =
     (let store' = NewRateLimiterStore in
      case quo window maxRequests' of
        Inl e \<Rightarrow> Inl e
      | Inr refillRate' \<Rightarrow>
          Inr \<lparr>store = store', maxRequests = maxRequests', cl_refillRate = refillRate'\<rparr>)"

definition IPRateLimitMiddleware :: "go_int \<Rightarrow> Duration \<Rightarrow> error + closure" where
  "IPRateLimitMiddleware maxRequests' window =
     (let store' = NewRateLimiterStore in
      case quo window maxRequests' of
        Inl e \<Rightarrow> Inl e
      | Inr refillRate' \<Rightarrow>
          Inr \<lparr>store = store', maxRequests = maxRequests', cl_refillRate = refillRate'\<rparr>)"

definition APIKeyRateLimitMiddleware :: "go_int \<Rightarrow> Duration \<Rightarrow> error + closure" where
  "APIKeyRateLimitMiddleware maxRequests' window =
     (let store' = NewRateLimiterStore in
      case quo window maxRequests' of
        Inl e \<Rightarrow> Inl e
      | Inr refillRate' \<Rightarrow>
          Inr \<lparr>store = store', maxRequests = maxRequests', cl_refillRate = refillRate'\<rparr>)"

definition CustomRateLimitMiddleware :: "go_int \<Rightarrow> Duration \<Rightarrow> error + closure" where
  "CustomRateLimitMiddleware maxRequests' window =
     (let store' = NewRateLimiterStore in
      case quo window maxRequests' of
        Inl e \<Rightarrow> Inl e
      | Inr refillRate' \<Rightarrow>
          Inr \<lparr>store = store', maxRequests = maxRequests', cl_refillRate = refillRate'\<rparr>)"

text \<open>
  The tail all four handlers share, word for word up to the message: fetch or create the
  client's limiter, ask it, and either answer 429 and abort or hand the request on.
  \<open>t_get\<close> and \<open>t_allow\<close> are the clock readings inside \<open>GetLimiter\<close> and \<open>Allow\<close>.
\<close>

definition limit ::
  "string \<Rightarrow> string \<Rightarrow> Time \<Rightarrow> Time \<Rightarrow> Context \<Rightarrow> closure \<times> memory
     \<Rightarrow> error + (Context \<times> closure \<times> memory)" where
  "limit clientID message t_get t_allow c cm =
     (case cm of (cl, m) \<Rightarrow>
        (case GetLimiter clientID (maxRequests cl) (cl_refillRate cl) t_get (store cl, m) of
           (limiter, s', m') \<Rightarrow>
             (case Allow_at t_allow limiter m' of
                Inl e \<Rightarrow> Inl e
              | Inr (ok, m'') \<Rightarrow>
                  if \<not> ok then
                    Inr (Abort (ErrorResponse c StatusTooManyRequests
                                  ''RATE_LIMIT_EXCEEDED'' message),
                         cl\<lparr>store := s'\<rparr>, m'')
                  else Inr (Next c, cl\<lparr>store := s'\<rparr>, m''))))"

text \<open>
  The handler of \<open>RateLimitMiddleware\<close>: the client is the IP address, or the user id
  when an earlier handler has set one. The user id is asserted to be a string, and the
  assertion panics on a value of another type.
\<close>

definition RateLimitHandler ::
  "Time \<Rightarrow> Time \<Rightarrow> Context \<Rightarrow> closure \<times> memory \<Rightarrow> error + (Context \<times> closure \<times> memory)" where
  "RateLimitHandler t_get t_allow c cm =
     (case Keys c ContextKeyUserID of
        None \<Rightarrow>
          limit (ClientIP c) ''Too many requests. Please try again later.'' t_get t_allow c cm
      | Some (AnyString userID) \<Rightarrow>
          limit userID ''Too many requests. Please try again later.'' t_get t_allow c cm
      | Some _ \<Rightarrow> Inl TypeAssertion)"

definition IPRateLimitHandler ::
  "Time \<Rightarrow> Time \<Rightarrow> Context \<Rightarrow> closure \<times> memory \<Rightarrow> error + (Context \<times> closure \<times> memory)" where
  "IPRateLimitHandler t_get t_allow c cm =
     limit (ClientIP c) ''Too many requests from this IP. Please try again later.''
       t_get t_allow c cm"

definition APIKeyRateLimitHandler ::
  "Time \<Rightarrow> Time \<Rightarrow> Context \<Rightarrow> closure \<times> memory \<Rightarrow> error + (Context \<times> closure \<times> memory)" where
  "APIKeyRateLimitHandler t_get t_allow c cm =
     (let apiKey = GetHeader c ''API-Key'';
          apiKey' = (if apiKey = [] then ClientIP c else apiKey)
      in limit apiKey' ''API rate limit exceeded. Please try again later.'' t_get t_allow c cm)"

definition CustomRateLimitHandler ::
  "(Context \<Rightarrow> string) \<Rightarrow> Time \<Rightarrow> Time \<Rightarrow> Context \<Rightarrow> closure \<times> memory
     \<Rightarrow> error + (Context \<times> closure \<times> memory)" where
  "CustomRateLimitHandler getClientID t_get t_allow c cm =
     (let clientID = getClientID c;
          clientID' = (if clientID = [] then ClientIP c else clientID)
      in limit clientID' ''Rate limit exceeded. Please try again later.'' t_get t_allow c cm)"

section \<open>Running a limiter\<close>

text \<open>
  Successive \<open>Allow\<close> calls on one limiter at the clock readings \<open>ts\<close>: the answers in
  order and the final state; a panic ends the run.
\<close>

fun Allow_seq :: "Time list \<Rightarrow> RateLimiter \<Rightarrow> error + (bool list \<times> RateLimiter)" where
  "Allow_seq [] r = Inr ([], r)"
| "Allow_seq (now # ts) r =
     (case Allow now r of
        Inl e \<Rightarrow> Inl e
      | Inr (ok, r') \<Rightarrow>
          (case Allow_seq ts r' of
             Inl e \<Rightarrow> Inl e
           | Inr (oks, r'') \<Rightarrow> Inr (ok # oks, r'')))"

text \<open>The bucket invariant of the data model.\<close>

definition bucket_inv :: "RateLimiter \<Rightarrow> bool" where
  "bucket_inv r \<longleftrightarrow> 0 \<le>s tokens r \<and> tokens r \<le>s maxTokens r"

text \<open>
  The specification's \<open>tokensToAdd = floor(elapsed / refillInterval)\<close>, over the
  integers: \<open>elapsed\<close> is the duration \<open>now.Sub(lastRefillTime)\<close> and \<open>div\<close> rounds down.
\<close>

definition floor_tokensToAdd :: "Time \<Rightarrow> RateLimiter \<Rightarrow> int" where
  "floor_tokensToAdd now r = sint (Sub now (lastRefillTime r)) div sint (refillRate r)"

section \<open>Signed 64-bit arithmetic\<close>

lemma sint64_bounds: "- (2 ^ 63) \<le> sint (x :: 64 word) \<and> sint x < 2 ^ 63"
  using sint_ge [of x] sint_lt [of x] by simp

lemma sint64_of_int:
  "- (2 ^ 63) \<le> i \<Longrightarrow> i < 2 ^ 63 \<Longrightarrow> sint (word_of_int i :: 64 word) = i"
  by (simp add: sint_sbintrunc' signed_take_bit_int_eq_self)

lemma sint64_add:
  "- (2 ^ 63) \<le> sint a + sint b \<Longrightarrow> sint a + sint b < 2 ^ 63
     \<Longrightarrow> sint (a + b :: 64 word) = sint a + sint b"
  by (simp add: sint_word_ariths signed_take_bit_int_eq_self)

lemma sint64_pred: "0 <s (t :: 64 word) \<Longrightarrow> sint (t - 1) = sint t - 1"
  using sint64_bounds [of t]
  by (simp add: sint_word_ariths signed_take_bit_int_eq_self word_sless_alt)

lemma sint_Sub: "sint (Sub t u) = max (- (2 ^ 63)) (min (2 ^ 63 - 1) (t - u))"
proof -
  consider "2 ^ 63 - 1 < t - u" | "t - u < - (2 ^ 63)"
    | "- (2 ^ 63) \<le> t - u" "t - u < 2 ^ 63"
    by linarith
  then show ?thesis
  proof cases
    case 1
    then show ?thesis
      by (simp add: Sub_def Let_def maxDuration_def sint64_of_int)
  next
    case 2
    then show ?thesis
      by (simp add: Sub_def Let_def minDuration_def sint64_of_int)
  next
    case 3
    then have "sint (word_of_int (t - u) :: 64 word) = t - u"
      by (rule sint64_of_int)
    with 3 show ?thesis
      by (simp add: Sub_def Let_def del: of_int_diff)
  qed
qed

lemma sdiv_pos_eq:
  fixes a b :: int
  assumes "0 < a div b"
  shows "a sdiv b = a div b"
proof -
  from assms have "b \<noteq> 0" by (cases "b = 0") simp_all
  have "sgn a = sgn b"
  proof (rule ccontr)
    assume "sgn a \<noteq> sgn b"
    then have "a div b \<le> 0"
      by (cases "0 < b"; cases "0 < a"; cases "a = 0")
         (auto simp: sgn_if div_nonpos_pos_le0 div_nonneg_neg_le0 not_less split: if_splits)
    with assms show False by simp
  qed
  then show ?thesis
    by (simp add: signed_divide_int_eq_divide_int)
qed

lemma sdiv_pos_iff:
  fixes a b :: int
  shows "0 < a sdiv b \<longleftrightarrow> 0 < a div b"
proof
  assume "0 < a div b"
  then show "0 < a sdiv b" by (simp add: sdiv_pos_eq)
next
  assume p: "0 < a sdiv b"
  then have "sgn a * sgn b * (\<bar>a\<bar> div \<bar>b\<bar>) > 0"
    by (simp add: signed_divide_int_def)
  moreover have "0 \<le> \<bar>a\<bar> div \<bar>b\<bar>"
    by (rule div_int_pos_iff [THEN iffD2]) simp
  ultimately have "sgn a = sgn b"
    by (auto simp: sgn_if zero_less_mult_iff split: if_splits)
  then have "a sdiv b = a div b"
    by (simp add: signed_divide_int_eq_divide_int)
  with p show "0 < a div b" by simp
qed

lemma abs_sdiv_le:
  fixes a b :: int
  shows "\<bar>a sdiv b\<bar> \<le> \<bar>a\<bar>"
proof -
  have nn: "0 \<le> \<bar>a\<bar> div \<bar>b\<bar>"
    by (rule div_int_pos_iff [THEN iffD2]) simp
  then have "\<bar>a sdiv b\<bar> = \<bar>sgn a\<bar> * \<bar>sgn b\<bar> * (\<bar>a\<bar> div \<bar>b\<bar>)"
    by (simp add: signed_divide_int_def abs_mult)
  also from nn have "\<dots> \<le> \<bar>a\<bar> div \<bar>b\<bar>"
    by (cases "a = 0"; cases "b = 0") (simp_all add: sgn_if)
  also have "\<dots> \<le> \<bar>a\<bar>"
    by (cases "a = 0") (simp_all add: int_div_le_self)
  finally show ?thesis .
qed

lemma quo_zero: "quo a 0 = Inl DivideByZero"
  by (simp add: quo_def)

lemma quo_cases:
  assumes "b \<noteq> 0"
  shows "\<exists>q. quo a b = Inr q \<and>
           (if 0 < sint a div sint b \<and> sint a div sint b < 2 ^ 63
            then sint q = sint a div sint b else \<not> 0 <s q)"
proof -
  let ?k = "sint a div sint b"
  let ?s = "sint a sdiv sint b"
  have q: "quo a b = Inr (word_of_int ?s)"
    using assms by (simp add: quo_def)
  have bnd: "\<bar>?s\<bar> \<le> 2 ^ 63"
    using abs_sdiv_le [of "sint a" "sint b"] sint64_bounds [of a] by linarith
  consider "?k \<le> 0" | "0 < ?k" "?k < 2 ^ 63" | "0 < ?k" "2 ^ 63 \<le> ?k"
    by linarith
  then show ?thesis
  proof cases
    case 1
    then have "?s \<le> 0"
      using sdiv_pos_iff [of "sint a" "sint b"] by simp
    moreover from bnd have "- (2 ^ 63) \<le> ?s"
      by (simp add: abs_le_iff)
    ultimately have "sint (word_of_int ?s :: 64 word) = ?s"
      by (intro sint64_of_int) simp_all
    with \<open>?s \<le> 0\<close> 1 q show ?thesis
      by (simp add: word_sless_alt)
  next
    case 2
    then have "?s = ?k" by (simp add: sdiv_pos_eq)
    with 2 have "sint (word_of_int ?s :: 64 word) = ?k"
      by (simp add: sint64_of_int)
    with 2 q show ?thesis by simp
  next
    case 3
    then have "?s = ?k" by (simp add: sdiv_pos_eq)
    with 3 bnd have "?s = 2 ^ 63" by linarith
    then have "sint (word_of_int ?s :: 64 word) = - (2 ^ 63)"
      by simp
    with 3 q show ?thesis
      by (simp add: word_sless_alt)
  qed
qed

section \<open>Facts about \<open>refill\<close> and \<open>Allow\<close>\<close>

lemma refill_zero: "refillRate r = 0 \<Longrightarrow> refill now r = Inl DivideByZero"
  by (simp add: refill_def quo_zero)

lemma refill_skip:
  assumes "refillRate r \<noteq> 0"
    and "\<not> (0 < floor_tokensToAdd now r \<and> floor_tokensToAdd now r < 2 ^ 63)"
  shows "refill now r = Inr r"
proof -
  from quo_cases [OF assms(1), of "Sub now (lastRefillTime r)"] assms(2)
  obtain q where "quo (Sub now (lastRefillTime r)) (refillRate r) = Inr q" "\<not> 0 <s q"
    by (auto simp: floor_tokensToAdd_def split: if_splits)
  then show ?thesis
    by (simp add: refill_def)
qed

lemma refill_add:
  assumes "refillRate r \<noteq> 0"
    and "0 < floor_tokensToAdd now r"
    and "floor_tokensToAdd now r < 2 ^ 63"
    and "sint (tokens r) + floor_tokensToAdd now r < 2 ^ 63"
  shows "\<exists>r1. refill now r = Inr r1 \<and>
           sint (tokens r1) = min (sint (tokens r) + floor_tokensToAdd now r) (sint (maxTokens r)) \<and>
           lastRefillTime r1 = now \<and> maxTokens r1 = maxTokens r \<and> refillRate r1 = refillRate r"
proof -
  let ?k = "floor_tokensToAdd now r"
  from quo_cases [OF assms(1), of "Sub now (lastRefillTime r)"] assms(2,3)
  obtain q where q: "quo (Sub now (lastRefillTime r)) (refillRate r) = Inr q" "sint q = ?k"
    by (auto simp: floor_tokensToAdd_def split: if_splits)
  with assms(2) have pos: "0 <s q"
    by (simp add: word_sless_alt)
  have "- (2 ^ 63) \<le> sint (tokens r) + sint q"
    using sint64_bounds [of "tokens r"] assms(2) q(2) by simp
  with assms(4) q(2) have sum: "sint (tokens r + q) = sint (tokens r) + ?k"
    by (simp add: sint64_add)
  show ?thesis
    using q(1) pos sum
    by (simp add: refill_def Let_def word_sless_alt min_def)
qed

lemma Allow_zero: "refillRate r = 0 \<Longrightarrow> Allow now r = Inl DivideByZero"
  by (simp add: Allow_def refill_zero)

lemma refill_frame:
  assumes "refill now r = Inr r1"
  shows "maxTokens r1 = maxTokens r \<and> refillRate r1 = refillRate r \<and>
         (lastRefillTime r1 = lastRefillTime r \<or> lastRefillTime r1 = now)"
  using assms
  by (auto simp: refill_def Let_def split: sum.splits if_splits)

lemma Allow_frame:
  assumes "Allow now r = Inr (ok, r')"
  shows "maxTokens r' = maxTokens r \<and> refillRate r' = refillRate r \<and>
         (lastRefillTime r' = lastRefillTime r \<or> lastRefillTime r' = now)"
proof -
  from assms obtain r1 where r1: "refill now r = Inr r1"
    and r': "r' = (if 0 <s tokens r1 then r1\<lparr>tokens := tokens r1 - 1\<rparr> else r1)"
    by (auto simp: Allow_def split: sum.splits if_splits)
  from refill_frame [OF r1] r' show ?thesis
    by (simp split: if_splits)
qed

lemma Allow_of_refill:
  assumes "refill now r = Inr r1"
  shows "\<exists>r'. Allow now r = Inr (0 < sint (tokens r1), r') \<and>
           sint (tokens r') = (if 0 < sint (tokens r1) then sint (tokens r1) - 1 else sint (tokens r1)) \<and>
           lastRefillTime r' = lastRefillTime r1 \<and> maxTokens r' = maxTokens r1 \<and>
           refillRate r' = refillRate r1"
  using assms
  by (simp add: Allow_def word_sless_alt sint64_pred)

lemma refill_changes_time:
  assumes "refill now r = Inr r1" and "lastRefillTime r1 \<noteq> lastRefillTime r"
  shows "0 < floor_tokensToAdd now r \<and> lastRefillTime r1 = now"
proof -
  have nz: "refillRate r \<noteq> 0"
    using assms(1) by (auto simp: refill_zero)
  have "0 < floor_tokensToAdd now r \<and> floor_tokensToAdd now r < 2 ^ 63"
  proof (rule ccontr)
    assume "\<not> ?thesis"
    with nz have "refill now r = Inr r" by (rule refill_skip)
    with assms show False by simp
  qed
  with refill_frame [OF assms(1)] assms(2) show ?thesis by auto
qed

lemma floor_tokensToAdd_ge_1:
  assumes "0 < sint (refillRate r)" and "lastRefillTime r + sint (refillRate r) \<le> now"
  shows "1 \<le> floor_tokensToAdd now r \<and> floor_tokensToAdd now r < 2 ^ 63"
proof -
  let ?e = "sint (Sub now (lastRefillTime r))"
  let ?d = "sint (refillRate r)"
  have d: "?d < 2 ^ 63" using sint64_bounds [of "refillRate r"] by simp
  have e: "?e < 2 ^ 63" using sint64_bounds [of "Sub now (lastRefillTime r)"] by simp
  from assms d have le: "?d \<le> ?e"
    by (simp add: sint_Sub)
  with assms(1) have "?d div ?d \<le> ?e div ?d"
    by (intro zdiv_mono1) simp_all
  with assms(1) have "1 \<le> ?e div ?d" by simp
  moreover have "?e div ?d \<le> ?e"
    using assms(1) le by (intro int_div_le_self) simp
  ultimately show ?thesis
    using e by (simp add: floor_tokensToAdd_def)
qed

lemma bucket_inv_refill:
  assumes "bucket_inv r" and "refill now r = Inr r1"
    and "sint (tokens r) + floor_tokensToAdd now r < 2 ^ 63"
  shows "bucket_inv r1"
proof (cases "0 < floor_tokensToAdd now r \<and> floor_tokensToAdd now r < 2 ^ 63")
  case True
  from assms(2) have nz: "refillRate r \<noteq> 0" by (auto simp: refill_zero)
  from refill_add [OF nz _ _ assms(3)] True assms(2)
  have "sint (tokens r1) = min (sint (tokens r) + floor_tokensToAdd now r) (sint (maxTokens r))"
    "maxTokens r1 = maxTokens r"
    by auto
  with assms(1) True show ?thesis
    by (simp add: bucket_inv_def word_sle_eq)
next
  case False
  from assms(2) have nz: "refillRate r \<noteq> 0" by (auto simp: refill_zero)
  from refill_skip [OF nz False] assms(1,2) show ?thesis by simp
qed

lemma bucket_inv_Allow:
  assumes "bucket_inv r" and "Allow now r = Inr (ok, r')"
    and "sint (tokens r) + floor_tokensToAdd now r < 2 ^ 63"
  shows "bucket_inv r'"
proof -
  from assms(2) obtain r1 where r1: "refill now r = Inr r1"
    by (auto simp: Allow_def split: sum.splits)
  from bucket_inv_refill [OF assms(1) r1 assms(3)] have inv1: "bucket_inv r1" .
  from Allow_of_refill [OF r1] assms(2)
  have "sint (tokens r') = (if 0 < sint (tokens r1) then sint (tokens r1) - 1 else sint (tokens r1))"
    "maxTokens r' = maxTokens r1"
    by auto
  with inv1 show ?thesis
    by (simp add: bucket_inv_def word_sle_eq split: if_splits)
qed

lemma Allow_within_interval:
  assumes "lastRefillTime r \<le> t" and "t - lastRefillTime r < sint (refillRate r)"
  shows "Allow t r = (if 0 < sint (tokens r) then Inr (True, r\<lparr>tokens := tokens r - 1\<rparr>)
                      else Inr (False, r))"
proof -
  let ?d = "sint (refillRate r)"
  from assms have d: "0 < ?d" by simp
  then have nz: "refillRate r \<noteq> 0" by auto
  have "?d < 2 ^ 63" using sint64_bounds [of "refillRate r"] by simp
  with assms have "sint (Sub t (lastRefillTime r)) = t - lastRefillTime r"
    by (simp add: sint_Sub)
  with assms have "floor_tokensToAdd t r = 0"
    by (simp add: floor_tokensToAdd_def)
  with nz have "refill t r = Inr r"
    by (simp add: refill_skip)
  then show ?thesis
    by (simp add: Allow_def word_sless_alt)
qed

lemma Allow_seq_within_interval:
  assumes "\<forall>t\<in>set ts. lastRefillTime r \<le> t \<and> t - lastRefillTime r < sint (refillRate r)"
  shows "\<exists>r'. Allow_seq ts r =
           Inr (replicate (min (length ts) (nat (sint (tokens r)))) True @
                replicate (length ts - nat (sint (tokens r))) False, r')"
  using assms
proof (induction ts arbitrary: r)
  case Nil
  then show ?case by simp
next
  case (Cons t ts)
  then have t: "lastRefillTime r \<le> t" "t - lastRefillTime r < sint (refillRate r)"
    by simp_all
  note step = Allow_within_interval [OF t]
  show ?case
  proof (cases "0 < sint (tokens r)")
    case True
    let ?r1 = "r\<lparr>tokens := tokens r - 1\<rparr>"
    from True have n1: "sint (tokens ?r1) = sint (tokens r) - 1"
      by (simp add: sint64_pred word_sless_alt)
    from Cons.prems have "\<forall>t\<in>set ts. lastRefillTime ?r1 \<le> t \<and>
        t - lastRefillTime ?r1 < sint (refillRate ?r1)"
      by simp
    from Cons.IH [OF this] obtain r' where
      "Allow_seq ts ?r1 =
         Inr (replicate (min (length ts) (nat (sint (tokens ?r1)))) True @
              replicate (length ts - nat (sint (tokens ?r1))) False, r')"
      by blast
    moreover from True have "nat (sint (tokens r)) = Suc (nat (sint (tokens r) - 1))"
      by simp
    ultimately show ?thesis
      using step True n1 by (simp del: replicate_Suc add: replicate_Suc [symmetric])
  next
    case False
    from Cons.prems have "\<forall>t\<in>set ts. lastRefillTime r \<le> t \<and>
        t - lastRefillTime r < sint (refillRate r)"
      by simp
    from Cons.IH [OF this] obtain r' where
      "Allow_seq ts r =
         Inr (replicate (min (length ts) (nat (sint (tokens r)))) True @
              replicate (length ts - nat (sint (tokens r))) False, r')"
      by blast
    with step False show ?thesis by simp
  qed
qed

lemma Allow_negative_capacity:
  assumes "tokens r = maxTokens r" and "maxTokens r <s 0" and "refillRate r \<noteq> 0"
  shows "\<exists>r'. Allow now r = Inr (False, r') \<and> tokens r' = tokens r \<and>
           maxTokens r' = maxTokens r \<and> refillRate r' = refillRate r"
proof -
  from assms(3) obtain q where q: "quo (Sub now (lastRefillTime r)) (refillRate r) = Inr q"
    by (auto simp: quo_def)
  show ?thesis
  proof (cases "0 <s q")
    case True
    have b: "- (2 ^ 63) \<le> sint (tokens r)" "sint q < 2 ^ 63"
      using sint64_bounds [of "tokens r"] sint64_bounds [of q] by simp_all
    with True assms(1,2) have "sint (tokens r + q) = sint (tokens r) + sint q"
      by (intro sint64_add) (simp_all add: word_sless_alt)
    with True assms(1) have "maxTokens r <s tokens r + q"
      by (simp add: word_sless_alt)
    with q True assms(1,2) show ?thesis
      by (simp add: Allow_def refill_def Let_def)
  next
    case False
    with q assms(1,2) show ?thesis
      by (simp add: Allow_def refill_def)
  qed
qed

section \<open>Facts about the registry\<close>

lemma GetLimiter_new_key:
  "limiters s clientID = None \<Longrightarrow>
     GetLimiter clientID maxTokens' refillRate' now (s, m) =
       (brk m, s\<lparr>limiters := (limiters s)(clientID \<mapsto> brk m)\<rparr>,
        m\<lparr>cells := (cells m)(brk m := \<lparr>tokens = maxTokens', maxTokens = maxTokens',
              refillRate = refillRate', lastRefillTime = now\<rparr>), brk := Suc (brk m)\<rparr>)"
  by (simp add: GetLimiter_def new_def)

lemma bucket_inv_GetLimiter:
  assumes "0 \<le>s maxTokens'" and "limiters s clientID = None"
    and "GetLimiter clientID maxTokens' refillRate' now (s, m) = (p, s', m')"
  shows "bucket_inv (cells m' p) \<and> tokens (cells m' p) = maxTokens'"
  using assms by (auto simp: GetLimiter_new_key bucket_inv_def)

lemma idle_iff: "30 * Minute <s Sub now t \<longleftrightarrow> 1800000000000 < now - t"
proof -
  have "sint (30 * Minute) = 1800000000000"
    by (simp add: Minute_def Second_def Nanosecond_def)
  then show ?thesis
    by (auto simp: word_sless_alt sint_Sub)
qed

lemma sweep_limiters:
  "limiters (sweep now ks m s) key =
     (case limiters s key of
        None \<Rightarrow> None
      | Some p \<Rightarrow>
          if key \<in> set ks \<and> 30 * Minute <s Sub now (lastRefillTime (cells m p))
          then None else Some p)"
  by (induction ks arbitrary: s) (auto split: option.splits)

section \<open>Facts about the constructors and handlers\<close>

lemma constructor_panics_iff:
  "RateLimitMiddleware maxRequests' window = Inl DivideByZero \<longleftrightarrow> maxRequests' = 0"
  "IPRateLimitMiddleware maxRequests' window = Inl DivideByZero \<longleftrightarrow> maxRequests' = 0"
  "APIKeyRateLimitMiddleware maxRequests' window = Inl DivideByZero \<longleftrightarrow> maxRequests' = 0"
  "CustomRateLimitMiddleware maxRequests' window = Inl DivideByZero \<longleftrightarrow> maxRequests' = 0"
  by (simp_all add: RateLimitMiddleware_def IPRateLimitMiddleware_def
      APIKeyRateLimitMiddleware_def CustomRateLimitMiddleware_def quo_def)

lemma limit_outcome:
  assumes "GetLimiter clientID (maxRequests cl) (cl_refillRate cl) t_get (store cl, m) = (p, s', m1)"
    and "Allow_at t_allow p m1 = Inr (ok, m2)"
  shows "limit clientID message t_get t_allow c (cl, m) =
           Inr (if ok then c\<lparr>handed_on := Suc (handed_on c)\<rparr>
                else c\<lparr>status := (if committed c then status c else 429),
                       committed := True,
                       body := body c @
                         [\<lparr>Success = False, Data = None,
                           Error = Some \<lparr>Code = ''RATE_LIMIT_EXCEEDED'',
                                         Message = message, Details = []\<rparr>\<rparr>],
                       aborted := True\<rparr>,
                cl\<lparr>store := s'\<rparr>, m2)"
  using assms
  by (simp add: limit_def Next_def Abort_def ErrorResponse_def JSON_def Status_def
      bodyAllowedForStatus_def StatusTooManyRequests_def)

lemma limit_panics:
  assumes "GetLimiter clientID (maxRequests cl) (cl_refillRate cl) t_get (store cl, m) = (p, s', m1)"
    and "Allow_at t_allow p m1 = Inl e"
  shows "limit clientID message t_get t_allow c (cl, m) = Inl e"
  using assms by (simp add: limit_def)

lemma variant_handlers:
  "IPRateLimitHandler t_get t_allow c cm =
     limit (ClientIP c) ''Too many requests from this IP. Please try again later.''
       t_get t_allow c cm"
  "APIKeyRateLimitHandler t_get t_allow c cm =
     limit (if GetHeader c ''API-Key'' = [] then ClientIP c else GetHeader c ''API-Key'')
       ''API rate limit exceeded. Please try again later.'' t_get t_allow c cm"
  "CustomRateLimitHandler getClientID t_get t_allow c cm =
     limit (if getClientID c = [] then ClientIP c else getClientID c)
       ''Rate limit exceeded. Please try again later.'' t_get t_allow c cm"
  by (simp_all add: IPRateLimitHandler_def APIKeyRateLimitHandler_def
      CustomRateLimitHandler_def Let_def)

lemma RateLimitHandler_type_assertion:
  "Keys c ContextKeyUserID = Some (AnyUUID u) \<Longrightarrow>
     RateLimitHandler t_get t_allow c cm = Inl TypeAssertion"
  by (simp add: RateLimitHandler_def)

text \<open>
  The scenario of the specification: 3 requests per 3 seconds give an interval of one
  second; four immediate calls answer true, true, true, false, and a call 1.1 seconds
  later answers true.
\<close>

lemma scenario_three_per_three_seconds:
  "RateLimitMiddleware 3 (3 * Second)
     = Inr \<lparr>store = NewRateLimiterStore, maxRequests = 3, cl_refillRate = 1000000000\<rparr>"
  "\<exists>r'. Allow_seq [0, 0, 0, 0, 1100000000]
          \<lparr>tokens = 3, maxTokens = 3, refillRate = 1000000000, lastRefillTime = 0\<rparr>
        = Inr ([True, True, True, False, True], r')"
  by (simp_all add: RateLimitMiddleware_def quo_def signed_divide_int_def Second_def
      Nanosecond_def Allow_def refill_def Sub_def word_sless_alt)

section \<open>The claims\<close>

text \<open>
  C1 (as amended). \<open>Allow\<close> panics with an integer division by zero when the limiter's
  refill interval is zero. For a non-zero interval, and as long as neither
  \<open>tokensToAdd = floor(elapsed / refillInterval)\<close> nor \<open>tokens + tokensToAdd\<close> leaves the
  64-bit range, the call returns without a panic: when \<open>tokensToAdd > 0\<close> it first sets
  \<open>tokens\<close> to \<open>min(tokens + tokensToAdd, maxTokens)\<close> and \<open>lastRefillTime\<close> to \<open>now\<close>; then
  it answers true and takes one token when the balance is positive, and answers false
  and takes none otherwise. Capacity and interval are never changed.
\<close>

theorem Allow_refill_then_consume:
  "(refillRate r = 0 \<longrightarrow> Allow now r = Inl DivideByZero) \<and>
   (refillRate r \<noteq> 0 \<and>
    (0 < floor_tokensToAdd now r \<longrightarrow>
       floor_tokensToAdd now r < 2 ^ 63 \<and>
       sint (tokens r) + floor_tokensToAdd now r < 2 ^ 63) \<longrightarrow>
    (\<exists>ok r'. Allow now r = Inr (ok, r') \<and>
       (let tokensToAdd = floor_tokensToAdd now r;
            refilled = (if 0 < tokensToAdd
                        then min (sint (tokens r) + tokensToAdd) (sint (maxTokens r))
                        else sint (tokens r))
        in ok = (0 < refilled) \<and>
           sint (tokens r') = (if 0 < refilled then refilled - 1 else refilled) \<and>
           lastRefillTime r' = (if 0 < tokensToAdd then now else lastRefillTime r)) \<and>
       maxTokens r' = maxTokens r \<and> refillRate r' = refillRate r))"
proof (intro conjI impI)
  assume "refillRate r = 0"
  then show "Allow now r = Inl DivideByZero" by (rule Allow_zero)
next
  let ?k = "floor_tokensToAdd now r"
  assume h: "refillRate r \<noteq> 0 \<and> (0 < ?k \<longrightarrow> ?k < 2 ^ 63 \<and> sint (tokens r) + ?k < 2 ^ 63)"
  show "\<exists>ok r'. Allow now r = Inr (ok, r') \<and>
       (let tokensToAdd = floor_tokensToAdd now r;
            refilled = (if 0 < tokensToAdd
                        then min (sint (tokens r) + tokensToAdd) (sint (maxTokens r))
                        else sint (tokens r))
        in ok = (0 < refilled) \<and>
           sint (tokens r') = (if 0 < refilled then refilled - 1 else refilled) \<and>
           lastRefillTime r' = (if 0 < tokensToAdd then now else lastRefillTime r)) \<and>
       maxTokens r' = maxTokens r \<and> refillRate r' = refillRate r"
  proof (cases "0 < ?k")
    case True
    with h refill_add [of r now] obtain r1 where r1: "refill now r = Inr r1"
      "sint (tokens r1) = min (sint (tokens r) + ?k) (sint (maxTokens r))"
      "lastRefillTime r1 = now" "maxTokens r1 = maxTokens r" "refillRate r1 = refillRate r"
      by auto
    from Allow_of_refill [OF r1(1)] r1(2-) True show ?thesis
      by (auto simp: Let_def)
  next
    case False
    with h have r1: "refill now r = Inr r"
      by (simp add: refill_skip)
    from Allow_of_refill [OF r1] False show ?thesis
      by (auto simp: Let_def)
  qed
qed

theorem Allow_refill_then_consume_witness:
  "(refillRate \<lparr>tokens = 2, maxTokens = 5, refillRate = 1000, lastRefillTime = 0\<rparr> \<noteq> 0 \<and>
    floor_tokensToAdd 1500 \<lparr>tokens = 2, maxTokens = 5, refillRate = 1000, lastRefillTime = 0\<rparr> = 1 \<and>
    (\<exists>r'. Allow 1500 \<lparr>tokens = 2, maxTokens = 5, refillRate = 1000, lastRefillTime = 0\<rparr>
            = Inr (True, r') \<and>
          sint (tokens r') = 2 \<and> lastRefillTime r' = 1500 \<and> maxTokens r' = 5)) \<and>
   (refillRate \<lparr>tokens = 2, maxTokens = 5, refillRate = 0, lastRefillTime = 0\<rparr> = 0 \<and>
    Allow 1500 \<lparr>tokens = 2, maxTokens = 5, refillRate = 0, lastRefillTime = 0\<rparr>
      = Inl DivideByZero)"
proof -
  have k: "floor_tokensToAdd 1500
             \<lparr>tokens = 2, maxTokens = 5, refillRate = 1000, lastRefillTime = 0\<rparr> = 1"
    by (simp add: floor_tokensToAdd_def sint_Sub)
  from k Allow_refill_then_consume
         [of "\<lparr>tokens = 2, maxTokens = 5, refillRate = 1000, lastRefillTime = 0\<rparr>" 1500]
  have "\<exists>r'. Allow 1500 \<lparr>tokens = 2, maxTokens = 5, refillRate = 1000, lastRefillTime = 0\<rparr>
            = Inr (True, r') \<and>
          sint (tokens r') = 2 \<and> lastRefillTime r' = 1500 \<and> maxTokens r' = 5"
    by (auto simp: Let_def)
  moreover from Allow_refill_then_consume
      [of "\<lparr>tokens = 2, maxTokens = 5, refillRate = 0, lastRefillTime = 0\<rparr>" 1500]
  have "Allow 1500 \<lparr>tokens = 2, maxTokens = 5, refillRate = 0, lastRefillTime = 0\<rparr>
      = Inl DivideByZero"
    by simp
  ultimately show ?thesis using k by simp
qed

text \<open>
  C1 as stated fails: \<open>RateLimitMiddleware(100, 60)\<close>, a window of 60 nanoseconds, derives
  the interval \<open>60 / 100 = 0\<close>, and \<open>Allow\<close> on a limiter with that interval panics.
\<close>

theorem Allow_panics_counterexample:
  "RateLimitMiddleware 100 60
     = Inr \<lparr>store = NewRateLimiterStore, maxRequests = 100, cl_refillRate = 0\<rparr> \<and>
   Allow 60 \<lparr>tokens = 100, maxTokens = 100, refillRate = 0, lastRefillTime = 0\<rparr>
     = Inl DivideByZero"
  by (simp add: RateLimitMiddleware_def quo_def signed_divide_int_def
      Allow_def refill_def)

text \<open>
  C2, evaluated where it breaks. \<open>RateLimitMiddleware(MaxInt64, MaxInt64)\<close> derives an
  interval of one nanosecond. The limiter it creates starts with a full bucket of
  \<open>MaxInt64\<close> tokens, which satisfies the invariant. One nanosecond later \<open>Allow\<close> adds one
  token, the sum wraps around to \<open>MinInt64\<close>, the cap does not apply, and the call
  answers false with a negative balance.
\<close>

theorem bucket_inv_lost_on_overflow:
  "RateLimitMiddleware 9223372036854775807 9223372036854775807
     = Inr \<lparr>store = NewRateLimiterStore, maxRequests = 9223372036854775807, cl_refillRate = 1\<rparr> \<and>
   cells (snd (snd (GetLimiter ''k'' 9223372036854775807 1 0 (NewRateLimiterStore, fresh_memory))))
       (fst (GetLimiter ''k'' 9223372036854775807 1 0 (NewRateLimiterStore, fresh_memory)))
     = \<lparr>tokens = 9223372036854775807, maxTokens = 9223372036854775807,
        refillRate = 1, lastRefillTime = 0\<rparr> \<and>
   bucket_inv \<lparr>tokens = 9223372036854775807, maxTokens = 9223372036854775807,
               refillRate = 1, lastRefillTime = 0\<rparr> \<and>
   Allow 1 \<lparr>tokens = 9223372036854775807, maxTokens = 9223372036854775807,
            refillRate = 1, lastRefillTime = 0\<rparr>
     = Inr (False, \<lparr>tokens = - 9223372036854775808, maxTokens = 9223372036854775807,
                    refillRate = 1, lastRefillTime = 1\<rparr>) \<and>
   \<not> bucket_inv \<lparr>tokens = - 9223372036854775808, maxTokens = 9223372036854775807,
                 refillRate = 1, lastRefillTime = 1\<rparr>"
  by (simp add: RateLimitMiddleware_def quo_def signed_divide_int_def
      GetLimiter_def new_def NewRateLimiterStore_def fresh_memory_def
      bucket_inv_def Allow_def refill_def Sub_def word_sless_alt word_sle_eq)

text \<open>
  C3 (as amended). Each of the four constructors fails, with an integer division by
  zero and before it returns a handler, exactly when \<open>maxRequests = 0\<close>. A negative
  \<open>maxRequests\<close> is accepted. A limiter made from such a configuration (its balance and
  capacity both equal the negative \<open>maxRequests\<close>) answers false to every \<open>Allow\<close> call
  and keeps its balance, unless the derived interval \<open>window / maxRequests\<close> is zero: then
  \<open>Allow\<close> panics.
\<close>

theorem construction_rejects_only_zero:
  "(RateLimitMiddleware maxRequests' window = Inl DivideByZero \<longleftrightarrow> maxRequests' = 0) \<and>
   (IPRateLimitMiddleware maxRequests' window = Inl DivideByZero \<longleftrightarrow> maxRequests' = 0) \<and>
   (APIKeyRateLimitMiddleware maxRequests' window = Inl DivideByZero \<longleftrightarrow> maxRequests' = 0) \<and>
   (CustomRateLimitMiddleware maxRequests' window = Inl DivideByZero \<longleftrightarrow> maxRequests' = 0) \<and>
   (maxRequests' <s 0 \<longrightarrow>
      (\<exists>cl. RateLimitMiddleware maxRequests' window = Inr cl \<and>
            IPRateLimitMiddleware maxRequests' window = Inr cl \<and>
            APIKeyRateLimitMiddleware maxRequests' window = Inr cl \<and>
            CustomRateLimitMiddleware maxRequests' window = Inr cl \<and>
            maxRequests cl = maxRequests' \<and>
            (\<forall>now r. tokens r = maxRequests' \<and> maxTokens r = maxRequests' \<and>
                      refillRate r = cl_refillRate cl \<longrightarrow>
               (if cl_refillRate cl = 0 then Allow now r = Inl DivideByZero
                else \<exists>r'. Allow now r = Inr (False, r') \<and> tokens r' = maxRequests' \<and>
                       maxTokens r' = maxRequests' \<and> refillRate r' = cl_refillRate cl))))"
proof (intro conjI impI)
  assume neg: "maxRequests' <s 0"
  then have nz: "maxRequests' \<noteq> 0" by auto
  let ?cl = "\<lparr>store = NewRateLimiterStore, maxRequests = maxRequests',
              cl_refillRate = word_of_int (sint window sdiv sint maxRequests')\<rparr>"
  have mk: "RateLimitMiddleware maxRequests' window = Inr ?cl"
    "IPRateLimitMiddleware maxRequests' window = Inr ?cl"
    "APIKeyRateLimitMiddleware maxRequests' window = Inr ?cl"
    "CustomRateLimitMiddleware maxRequests' window = Inr ?cl"
    using nz
    by (simp_all add: RateLimitMiddleware_def IPRateLimitMiddleware_def
        APIKeyRateLimitMiddleware_def CustomRateLimitMiddleware_def quo_def)
  have "\<forall>now r. tokens r = maxRequests' \<and> maxTokens r = maxRequests' \<and>
                      refillRate r = cl_refillRate ?cl \<longrightarrow>
               (if cl_refillRate ?cl = 0 then Allow now r = Inl DivideByZero
                else \<exists>r'. Allow now r = Inr (False, r') \<and> tokens r' = maxRequests' \<and>
                       maxTokens r' = maxRequests' \<and> refillRate r' = cl_refillRate ?cl)"
  proof (intro allI impI)
    fix now and r :: RateLimiter
    assume r: "tokens r = maxRequests' \<and> maxTokens r = maxRequests' \<and>
                      refillRate r = cl_refillRate ?cl"
    show "if cl_refillRate ?cl = 0 then Allow now r = Inl DivideByZero
                else \<exists>r'. Allow now r = Inr (False, r') \<and> tokens r' = maxRequests' \<and>
                       maxTokens r' = maxRequests' \<and> refillRate r' = cl_refillRate ?cl"
    proof (cases "cl_refillRate ?cl = 0")
      case True
      with r have "refillRate r = 0" by simp
      then have "Allow now r = Inl DivideByZero" by (rule Allow_zero)
      with True show ?thesis by simp
    next
      case False
      with r neg have "tokens r = maxTokens r" "maxTokens r <s 0" "refillRate r \<noteq> 0"
        by simp_all
      from Allow_negative_capacity [OF this, of now] r False show ?thesis
        by auto
    qed
  qed
  with mk show "\<exists>cl. RateLimitMiddleware maxRequests' window = Inr cl \<and>
            IPRateLimitMiddleware maxRequests' window = Inr cl \<and>
            APIKeyRateLimitMiddleware maxRequests' window = Inr cl \<and>
            CustomRateLimitMiddleware maxRequests' window = Inr cl \<and>
            maxRequests cl = maxRequests' \<and>
            (\<forall>now r. tokens r = maxRequests' \<and> maxTokens r = maxRequests' \<and>
                      refillRate r = cl_refillRate cl \<longrightarrow>
               (if cl_refillRate cl = 0 then Allow now r = Inl DivideByZero
                else \<exists>r'. Allow now r = Inr (False, r') \<and> tokens r' = maxRequests' \<and>
                       maxTokens r' = maxRequests' \<and> refillRate r' = cl_refillRate cl))"
    by (intro exI [of _ ?cl]) simp
qed (simp_all add: constructor_panics_iff)

theorem construction_rejects_only_zero_witness:
  "(- 1 :: go_int) <s 0 \<and>
   RateLimitMiddleware (- 1) Second
     = Inr \<lparr>store = NewRateLimiterStore, maxRequests = - 1, cl_refillRate = - 1000000000\<rparr> \<and>
   (\<exists>r'. Allow 5 \<lparr>tokens = - 1, maxTokens = - 1, refillRate = - 1000000000,
                   lastRefillTime = 0\<rparr> = Inr (False, r') \<and> tokens r' = - 1)"
proof -
  have neg: "(- 1 :: go_int) <s 0" by simp
  have mk: "RateLimitMiddleware (- 1) Second
     = Inr \<lparr>store = NewRateLimiterStore, maxRequests = - 1, cl_refillRate = - 1000000000\<rparr>"
    by (simp add: RateLimitMiddleware_def quo_def Second_def Nanosecond_def)
  from neg mk construction_rejects_only_zero [of "- 1" Second]
  have "\<forall>now r. tokens r = - 1 \<and> maxTokens r = - 1 \<and> refillRate r = - 1000000000 \<longrightarrow>
          (\<exists>r'. Allow now r = Inr (False, r') \<and> tokens r' = - 1 \<and>
                 maxTokens r' = - 1 \<and> refillRate r' = - 1000000000)"
    by simp
  from this [rule_format, of "\<lparr>tokens = - 1, maxTokens = - 1, refillRate = - 1000000000,
                   lastRefillTime = 0\<rparr>" 5]
  have "\<exists>r'. Allow 5 \<lparr>tokens = - 1, maxTokens = - 1, refillRate = - 1000000000,
                   lastRefillTime = 0\<rparr> = Inr (False, r') \<and> tokens r' = - 1"
    by auto
  with neg mk show ?thesis by simp
qed

text \<open>
  C3 as stated fails: \<open>RateLimitMiddleware(-100, 60)\<close> is constructed without complaint,
  with the interval \<open>60 / -100 = 0\<close>, and \<open>Allow\<close> on the limiter it creates panics.
\<close>

theorem negative_maxRequests_accepted_counterexample:
  "RateLimitMiddleware (- 100) 60
     = Inr \<lparr>store = NewRateLimiterStore, maxRequests = - 100, cl_refillRate = 0\<rparr> \<and>
   Allow 7 \<lparr>tokens = - 100, maxTokens = - 100, refillRate = 0, lastRefillTime = 0\<rparr>
     = Inl DivideByZero"
  by (simp add: RateLimitMiddleware_def quo_def signed_divide_int_def
      Allow_def refill_def)

text \<open>
  C4. A limiter is created by \<open>GetLimiter\<close> for an unseen key with capacity \<open>N\<close> at time
  \<open>t0\<close>, and \<open>Allow\<close> is then called at the times \<open>ts\<close>, all of them less than one
  refill interval after \<open>t0\<close>. No call panics; the first \<open>N\<close> calls answer true and
  every later one answers false, so that \<open>N + 1\<close> calls give \<open>N\<close> times true and then
  false.
\<close>

theorem fresh_limiter_allows_first_N:
  assumes "limiters s clientID = None"
    and "GetLimiter clientID N refillRate' t0 (s, m) = (p, s', m')"
    and "\<forall>t\<in>set ts. t0 \<le> t \<and> t - t0 < sint refillRate'"
  shows "\<exists>r'. Allow_seq ts (cells m' p) =
           Inr (replicate (min (length ts) (nat (sint N))) True @
                replicate (length ts - nat (sint N)) False, r')"
proof -
  let ?l = "\<lparr>tokens = N, maxTokens = N, refillRate = refillRate', lastRefillTime = t0\<rparr>"
  from assms(1,2) have l: "cells m' p = ?l"
    by (auto simp: GetLimiter_new_key)
  from assms(3) have "\<forall>t\<in>set ts. lastRefillTime ?l \<le> t \<and>
      t - lastRefillTime ?l < sint (refillRate ?l)"
    by simp
  from Allow_seq_within_interval [OF this] l show ?thesis
    by simp
qed

theorem fresh_limiter_allows_first_N_witness:
  "limiters NewRateLimiterStore ''A'' = None \<and>
   (0 :: int) - 0 < sint (1000000000 :: Duration) \<and>
   (\<exists>r'. Allow_seq [0, 0, 0, 0]
            (cells (snd (snd (GetLimiter ''A'' 3 1000000000 0 (NewRateLimiterStore, fresh_memory))))
               (fst (GetLimiter ''A'' 3 1000000000 0 (NewRateLimiterStore, fresh_memory))))
          = Inr ([True, True, True, False], r'))"
proof -
  have h1: "limiters NewRateLimiterStore ''A'' = None"
    by (simp add: NewRateLimiterStore_def)
  have h2: "GetLimiter ''A'' 3 1000000000 0 (NewRateLimiterStore, fresh_memory) =
      (fst (GetLimiter ''A'' 3 1000000000 0 (NewRateLimiterStore, fresh_memory)),
       fst (snd (GetLimiter ''A'' 3 1000000000 0 (NewRateLimiterStore, fresh_memory))),
       snd (snd (GetLimiter ''A'' 3 1000000000 0 (NewRateLimiterStore, fresh_memory))))"
    by simp
  have h3: "\<forall>t\<in>set [0, 0, 0, 0 :: int]. 0 \<le> t \<and> t - 0 < sint (1000000000 :: Duration)"
    by simp
  from fresh_limiter_allows_first_N [OF h1 h2 h3]
  have "\<exists>r'. Allow_seq [0, 0, 0, 0]
            (cells (snd (snd (GetLimiter ''A'' 3 1000000000 0 (NewRateLimiterStore, fresh_memory))))
               (fst (GetLimiter ''A'' 3 1000000000 0 (NewRateLimiterStore, fresh_memory))))
          = Inr ([True, True, True, False], r')"
    by (simp add: numeral_eq_Suc)
  with h1 show ?thesis by simp
qed

text \<open>
  C5. One pass of the cleanup loop over all keys of the registry removes an entry
  exactly when \<open>now - lastRefillTime\<close> exceeds 30 minutes (1800000000000 nanoseconds) and
  keeps it otherwise. After a removal, \<open>GetLimiter\<close> for that key creates a new limiter
  whose balance is the \<open>maxTokens\<close> of that call, and enters it in the registry.
\<close>

theorem sweep_removes_idle:
  assumes "set ks = dom (limiters s)" and "limiters s key = Some p"
  shows "limiters (sweep now ks m s) key =
           (if 1800000000000 < now - lastRefillTime (cells m p) then None else Some p) \<and>
         (1800000000000 < now - lastRefillTime (cells m p) \<longrightarrow>
            (\<exists>q s' m'. GetLimiter key maxTokens' refillRate' t (sweep now ks m s, m) = (q, s', m') \<and>
               limiters s' key = Some q \<and>
               cells m' q = \<lparr>tokens = maxTokens', maxTokens = maxTokens',
                             refillRate = refillRate', lastRefillTime = t\<rparr>))"
proof -
  from assms have "key \<in> set ks" by auto
  with assms(2) have sw: "limiters (sweep now ks m s) key =
           (if 1800000000000 < now - lastRefillTime (cells m p) then None else Some p)"
    by (simp add: sweep_limiters idle_iff)
  then show ?thesis
    by (auto simp: GetLimiter_new_key)
qed

theorem sweep_removes_idle_witness:
  "set [''A''] = dom (limiters \<lparr>limiters = [''A'' \<mapsto> 0]\<rparr>) \<and>
   limiters \<lparr>limiters = [''A'' \<mapsto> 0]\<rparr> ''A'' = Some 0 \<and>
   1800000000000 < 1800000000001 - lastRefillTime (cells (fresh_memory\<lparr>brk := 1\<rparr>) 0) \<and>
   limiters (sweep 1800000000001 [''A''] (fresh_memory\<lparr>brk := 1\<rparr>)
               \<lparr>limiters = [''A'' \<mapsto> 0]\<rparr>) ''A'' = None \<and>
   (\<exists>q s' m'. GetLimiter ''A'' 3 1000000000 1800000000002
                 (sweep 1800000000001 [''A''] (fresh_memory\<lparr>brk := 1\<rparr>)
                    \<lparr>limiters = [''A'' \<mapsto> 0]\<rparr>, fresh_memory\<lparr>brk := 1\<rparr>) = (q, s', m') \<and>
       limiters s' ''A'' = Some q \<and>
       cells m' q = \<lparr>tokens = 3, maxTokens = 3, refillRate = 1000000000,
                     lastRefillTime = 1800000000002\<rparr>)"
proof -
  have h1: "set [''A''] = dom (limiters \<lparr>limiters = [''A'' \<mapsto> 0]\<rparr>)"
    by simp
  have h2: "limiters \<lparr>limiters = [''A'' \<mapsto> 0]\<rparr> ''A'' = Some 0"
    by simp
  have h3: "1800000000000 < 1800000000001 - lastRefillTime (cells (fresh_memory\<lparr>brk := 1\<rparr>) 0)"
    by (simp add: fresh_memory_def)
  from h3 sweep_removes_idle [OF h1 h2, of 1800000000001 "fresh_memory\<lparr>brk := 1\<rparr>"
      3 1000000000 1800000000002]
  have "limiters (sweep 1800000000001 [''A''] (fresh_memory\<lparr>brk := 1\<rparr>)
               \<lparr>limiters = [''A'' \<mapsto> 0]\<rparr>) ''A'' = None \<and>
   (\<exists>q s' m'. GetLimiter ''A'' 3 1000000000 1800000000002
                 (sweep 1800000000001 [''A''] (fresh_memory\<lparr>brk := 1\<rparr>)
                    \<lparr>limiters = [''A'' \<mapsto> 0]\<rparr>, fresh_memory\<lparr>brk := 1\<rparr>) = (q, s', m') \<and>
       limiters s' ''A'' = Some q \<and>
       cells m' q = \<lparr>tokens = 3, maxTokens = 3, refillRate = 1000000000,
                     lastRefillTime = 1800000000002\<rparr>)"
    by simp
  with h1 h2 h3 show ?thesis by blast
qed

text \<open>
  C6. The handler of \<open>RateLimitMiddleware\<close> runs on a request for which no response
  header has gone out yet. It has derived the client key (the user id when one is set as
  a string, the IP address when none is set), fetched the limiter and called \<open>Allow\<close>.
  When \<open>Allow\<close> answers false the response has HTTP status 429, its header is sent, the
  JSON value \<open>{success: false, error: {code: "RATE_LIMIT_EXCEEDED", message: "Too many
  requests. Please try again later."}}\<close> is written to the body, the chain is aborted and
  \<open>Next\<close> is not called. When \<open>Allow\<close> answers true the handler leaves the response
  untouched, does not abort, and calls \<open>Next\<close> once.
\<close>

theorem RateLimitHandler_outcome:
  assumes "\<not> committed c"
    and "Keys c ContextKeyUserID = None \<and> clientID = ClientIP c \<or>
         Keys c ContextKeyUserID = Some (AnyString clientID)"
    and "GetLimiter clientID (maxRequests cl) (cl_refillRate cl) t_get (store cl, m) = (p, s', m1)"
    and "Allow_at t_allow p m1 = Inr (ok, m2)"
  shows "\<exists>c'. RateLimitHandler t_get t_allow c (cl, m) = Inr (c', cl\<lparr>store := s'\<rparr>, m2) \<and>
           (if ok
            then status c' = status c \<and> committed c' = committed c \<and> body c' = body c \<and>
                 aborted c' = aborted c \<and> handed_on c' = Suc (handed_on c)
            else status c' = 429 \<and> committed c' \<and>
                 body c' = body c @
                   [\<lparr>Success = False, Data = None,
                     Error = Some \<lparr>Code = ''RATE_LIMIT_EXCEEDED'',
                                   Message = ''Too many requests. Please try again later.'',
                                   Details = []\<rparr>\<rparr>] \<and>
                 aborted c' \<and> handed_on c' = handed_on c)"
proof -
  from assms(2) have "RateLimitHandler t_get t_allow c (cl, m) =
      limit clientID ''Too many requests. Please try again later.'' t_get t_allow c (cl, m)"
    by (auto simp: RateLimitHandler_def)
  with limit_outcome [OF assms(3,4)] assms(1) show ?thesis
    by simp
qed

theorem RateLimitHandler_outcome_witness:
  "unanswered \<lparr>ClientIP = ''10.0.0.1'', GetHeader = (\<lambda>_. []), Keys = Map.empty,
               status = 200, committed = False, body = [],
               aborted = False, handed_on = 0\<rparr> \<and>
   (\<exists>c'. RateLimitHandler 5 6
          \<lparr>ClientIP = ''10.0.0.1'', GetHeader = (\<lambda>_. []), Keys = Map.empty,
           status = 200, committed = False, body = [],
           aborted = False, handed_on = 0\<rparr>
          (\<lparr>store = \<lparr>limiters = [''10.0.0.1'' \<mapsto> 0]\<rparr>, maxRequests = 1,
            cl_refillRate = 1000000000\<rparr>,
           \<lparr>cells = (\<lambda>_. \<lparr>tokens = 0, maxTokens = 1, refillRate = 1000000000,
                          lastRefillTime = 0\<rparr>), brk = 1\<rparr>)
        = Inr (c', \<lparr>store = \<lparr>limiters = [''10.0.0.1'' \<mapsto> 0]\<rparr>, maxRequests = 1,
                    cl_refillRate = 1000000000\<rparr>,
               \<lparr>cells = (\<lambda>_. \<lparr>tokens = 0, maxTokens = 1, refillRate = 1000000000,
                              lastRefillTime = 0\<rparr>), brk = 1\<rparr>) \<and>
        status c' = 429 \<and> committed c' \<and>
        body c' =
          [\<lparr>Success = False, Data = None,
            Error = Some \<lparr>Code = ''RATE_LIMIT_EXCEEDED'',
                          Message = ''Too many requests. Please try again later.'',
                          Details = []\<rparr>\<rparr>] \<and>
        aborted c' \<and> handed_on c' = 0)"
proof -
  let ?c = "\<lparr>ClientIP = ''10.0.0.1'', GetHeader = (\<lambda>_. []), Keys = Map.empty,
           status = 200, committed = False, body = [],
           aborted = False, handed_on = 0\<rparr>"
  let ?s = "\<lparr>limiters = [''10.0.0.1'' \<mapsto> 0]\<rparr>"
  let ?cl = "\<lparr>store = ?s, maxRequests = 1, cl_refillRate = 1000000000\<rparr>"
  let ?l = "\<lparr>tokens = 0, maxTokens = 1, refillRate = 1000000000, lastRefillTime = 0\<rparr>"
  let ?m = "\<lparr>cells = (\<lambda>_. ?l), brk = 1\<rparr>"
  have h0: "\<not> committed ?c"
    by simp
  have h1: "Keys ?c ContextKeyUserID = None \<and> ''10.0.0.1'' = ClientIP ?c \<or>
           Keys ?c ContextKeyUserID = Some (AnyString ''10.0.0.1'')"
    by simp
  have h2: "GetLimiter ''10.0.0.1'' (maxRequests ?cl) (cl_refillRate ?cl) 5 (store ?cl, ?m)
              = (0, ?s, ?m)"
    by (simp add: GetLimiter_def)
  have "Allow 6 ?l = Inr (False, ?l)"
    by (simp add: Allow_within_interval)
  then have h3: "Allow_at 6 0 ?m = Inr (False, ?m)"
    by (simp add: Allow_at_def fun_eq_iff)
  from RateLimitHandler_outcome [OF h0 h1 h2 h3] show ?thesis
    by (simp add: unanswered_def)
qed

text \<open>
  C7 (as amended). Let a first \<open>Allow\<close> call at \<open>now1\<close> leave the limiter in state \<open>r1\<close>,
  with a positive refill interval and a clock that has not run backwards. If the next
  call comes at least one full interval later and \<open>tokens + tokensToAdd\<close> stays in the
  64-bit range, the balance it sees after its refill step has at least one token more
  than the first call left, capped at \<open>maxTokens\<close>; it answers true exactly when that
  balance is positive.
\<close>

theorem refill_after_full_interval:
  assumes "Allow now1 r = Inr (ok1, r1)"
    and "lastRefillTime r \<le> now1"
    and "0 < sint (refillRate r)"
    and "now1 + sint (refillRate r) \<le> now2"
    and "sint (tokens r1) + floor_tokensToAdd now2 r1 < 2 ^ 63"
  shows "\<exists>r2. refill now2 r1 = Inr r2 \<and>
           min (sint (tokens r1) + 1) (sint (maxTokens r1)) \<le> sint (tokens r2) \<and>
           sint (tokens r2) \<le> sint (maxTokens r1) \<and>
           Allow now2 r1 =
             (if 0 < sint (tokens r2) then Inr (True, r2\<lparr>tokens := tokens r2 - 1\<rparr>)
              else Inr (False, r2))"
proof -
  from Allow_frame [OF assms(1)] assms(2)
  have fr: "refillRate r1 = refillRate r" "lastRefillTime r1 \<le> now1"
    by auto
  with assms(3,4) have "0 < sint (refillRate r1)"
    "lastRefillTime r1 + sint (refillRate r1) \<le> now2"
    by simp_all
  then have k: "1 \<le> floor_tokensToAdd now2 r1" "floor_tokensToAdd now2 r1 < 2 ^ 63"
    using floor_tokensToAdd_ge_1 [of r1 now2] by simp_all
  from \<open>0 < sint (refillRate r1)\<close> have "refillRate r1 \<noteq> 0" by auto
  with k assms(5) refill_add [of r1 now2]
  obtain r2 where r2: "refill now2 r1 = Inr r2"
    "sint (tokens r2) = min (sint (tokens r1) + floor_tokensToAdd now2 r1) (sint (maxTokens r1))"
    by auto
  from r2(2) k(1) have "min (sint (tokens r1) + 1) (sint (maxTokens r1)) \<le> sint (tokens r2)"
    "sint (tokens r2) \<le> sint (maxTokens r1)"
    by simp_all
  moreover from r2(1) have "Allow now2 r1 =
             (if 0 < sint (tokens r2) then Inr (True, r2\<lparr>tokens := tokens r2 - 1\<rparr>)
              else Inr (False, r2))"
    by (simp add: Allow_def word_sless_alt)
  ultimately show ?thesis using r2(1) by simp
qed

theorem refill_after_full_interval_witness:
  "Allow 0 \<lparr>tokens = 3, maxTokens = 3, refillRate = 1000, lastRefillTime = 0\<rparr>
     = Inr (True, \<lparr>tokens = 2, maxTokens = 3, refillRate = 1000, lastRefillTime = 0\<rparr>) \<and>
   floor_tokensToAdd 1100 \<lparr>tokens = 2, maxTokens = 3, refillRate = 1000, lastRefillTime = 0\<rparr>
     = 1 \<and>
   (\<exists>r2. refill 1100 \<lparr>tokens = 2, maxTokens = 3, refillRate = 1000, lastRefillTime = 0\<rparr>
            = Inr r2 \<and>
         3 \<le> sint (tokens r2) \<and> sint (tokens r2) \<le> 3)"
proof -
  let ?r = "\<lparr>tokens = 3, maxTokens = 3, refillRate = 1000, lastRefillTime = 0\<rparr>"
  let ?r1 = "\<lparr>tokens = 2, maxTokens = 3, refillRate = 1000, lastRefillTime = 0\<rparr>"
  have first: "Allow 0 ?r = Inr (True, ?r1)"
    by (simp add: Allow_within_interval)
  have k: "floor_tokensToAdd 1100 ?r1 = 1"
    by (simp add: floor_tokensToAdd_def sint_Sub)
  have "\<exists>r2. refill 1100 ?r1 = Inr r2 \<and>
           min (sint (tokens ?r1) + 1) (sint (maxTokens ?r1)) \<le> sint (tokens r2) \<and>
           sint (tokens r2) \<le> sint (maxTokens ?r1) \<and>
           Allow 1100 ?r1 =
             (if 0 < sint (tokens r2) then Inr (True, r2\<lparr>tokens := tokens r2 - 1\<rparr>)
              else Inr (False, r2))"
    by (rule refill_after_full_interval [OF first]) (simp_all add: k)
  then have "\<exists>r2. refill 1100 ?r1 = Inr r2 \<and> 3 \<le> sint (tokens r2) \<and> sint (tokens r2) \<le> 3"
    by auto
  with first k show ?thesis by simp
qed

text \<open>
  C7 as stated fails for a limiter whose interval is not positive, which nothing
  rejects: with \<open>refillRate = -1\<close> (\<open>RateLimitMiddleware(5, -5)\<close>) the first call leaves 4 of
  5 tokens, and a call 10 nanoseconds later still finds 4.
\<close>

theorem no_refill_counterexample:
  "RateLimitMiddleware 5 (- 5)
     = Inr \<lparr>store = NewRateLimiterStore, maxRequests = 5, cl_refillRate = - 1\<rparr> \<and>
   Allow 0 \<lparr>tokens = 5, maxTokens = 5, refillRate = - 1, lastRefillTime = 0\<rparr>
     = Inr (True, \<lparr>tokens = 4, maxTokens = 5, refillRate = - 1, lastRefillTime = 0\<rparr>) \<and>
   refill 10 \<lparr>tokens = 4, maxTokens = 5, refillRate = - 1, lastRefillTime = 0\<rparr>
     = Inr \<lparr>tokens = 4, maxTokens = 5, refillRate = - 1, lastRefillTime = 0\<rparr>"
  by (simp add: RateLimitMiddleware_def quo_def signed_divide_int_def
      Allow_def refill_def Sub_def word_sless_alt)

text \<open>
  C9. When \<open>floor(elapsed / refillInterval)\<close> is zero, \<open>Allow\<close> returns with
  \<open>lastRefillTime\<close> unchanged, so every later call still measures its elapsed time, and
  the tokens it earns, from the old reference point. \<open>lastRefillTime\<close> changes only in a
  call that adds at least one whole token, and then it becomes \<open>now\<close>.
\<close>

theorem Allow_keeps_lastRefillTime:
  "(refillRate r \<noteq> 0 \<and> floor_tokensToAdd now r = 0 \<longrightarrow>
      (\<exists>ok r'. Allow now r = Inr (ok, r') \<and> lastRefillTime r' = lastRefillTime r \<and>
         (\<forall>later. floor_tokensToAdd later r' = floor_tokensToAdd later r))) \<and>
   (\<forall>ok r'. Allow now r = Inr (ok, r') \<and> lastRefillTime r' \<noteq> lastRefillTime r \<longrightarrow>
      0 < floor_tokensToAdd now r \<and> lastRefillTime r' = now)"
proof (rule conjI)
  show "refillRate r \<noteq> 0 \<and> floor_tokensToAdd now r = 0 \<longrightarrow>
      (\<exists>ok r'. Allow now r = Inr (ok, r') \<and> lastRefillTime r' = lastRefillTime r \<and>
         (\<forall>later. floor_tokensToAdd later r' = floor_tokensToAdd later r))"
  proof
    assume "refillRate r \<noteq> 0 \<and> floor_tokensToAdd now r = 0"
    then have "refill now r = Inr r"
      by (simp add: refill_skip)
    from Allow_of_refill [OF this]
    show "\<exists>ok r'. Allow now r = Inr (ok, r') \<and> lastRefillTime r' = lastRefillTime r \<and>
         (\<forall>later. floor_tokensToAdd later r' = floor_tokensToAdd later r)"
      by (auto simp: floor_tokensToAdd_def)
  qed
next
  show "\<forall>ok r'. Allow now r = Inr (ok, r') \<and> lastRefillTime r' \<noteq> lastRefillTime r \<longrightarrow>
      0 < floor_tokensToAdd now r \<and> lastRefillTime r' = now"
  proof (rule allI, rule allI, rule impI)
    fix ok r'
    assume a: "Allow now r = Inr (ok, r') \<and> lastRefillTime r' \<noteq> lastRefillTime r"
    then obtain r1 where r1: "refill now r = Inr r1"
      by (auto simp: Allow_def split: sum.splits)
    from Allow_of_refill [OF r1] a have "lastRefillTime r1 = lastRefillTime r'"
      by auto
    with a refill_changes_time [OF r1]
    show "0 < floor_tokensToAdd now r \<and> lastRefillTime r' = now"
      by simp
  qed
qed

theorem Allow_keeps_lastRefillTime_witness:
  "floor_tokensToAdd 500 \<lparr>tokens = 2, maxTokens = 5, refillRate = 1000, lastRefillTime = 0\<rparr> = 0 \<and>
   (\<exists>ok r'. Allow 500 \<lparr>tokens = 2, maxTokens = 5, refillRate = 1000, lastRefillTime = 0\<rparr>
              = Inr (ok, r') \<and> lastRefillTime r' = 0) \<and>
   Allow 1500 \<lparr>tokens = 2, maxTokens = 5, refillRate = 1000, lastRefillTime = 0\<rparr>
     = Inr (True, \<lparr>tokens = 2, maxTokens = 5, refillRate = 1000, lastRefillTime = 1500\<rparr>) \<and>
   0 < floor_tokensToAdd 1500 \<lparr>tokens = 2, maxTokens = 5, refillRate = 1000, lastRefillTime = 0\<rparr>"
proof -
  let ?r = "\<lparr>tokens = 2, maxTokens = 5, refillRate = 1000, lastRefillTime = 0\<rparr>"
  let ?r' = "\<lparr>tokens = 2, maxTokens = 5, refillRate = 1000, lastRefillTime = 1500\<rparr>"
  have k: "floor_tokensToAdd 500 ?r = 0"
    by (simp add: floor_tokensToAdd_def sint_Sub)
  have a: "Allow 1500 ?r = Inr (True, ?r')"
    by (simp add: Allow_def refill_def quo_def signed_divide_int_def Sub_def word_sless_alt)
  from k Allow_keeps_lastRefillTime [of ?r 500]
  have "\<exists>ok r'. Allow 500 ?r = Inr (ok, r') \<and> lastRefillTime r' = 0"
    by auto
  moreover from a Allow_keeps_lastRefillTime [of ?r 1500]
  have "0 < floor_tokensToAdd 1500 ?r"
    by auto
  ultimately show ?thesis using k a by simp
qed

text \<open>
  C10. For a key that is in the registry, \<open>GetLimiter\<close> returns the stored pointer and
  leaves the registry and every limiter object as they were, whatever \<open>maxTokens\<close>,
  \<open>refillRate\<close> and clock reading the call carries. So after a key's first lookup has
  created its limiter, a later lookup with other parameters returns the same limiter,
  with the capacity and refill rate of the first.
\<close>

theorem GetLimiter_known_key:
  "(limiters s clientID = Some p \<longrightarrow>
      GetLimiter clientID maxTokens' refillRate' now (s, m) = (p, s, m)) \<and>
   (limiters s clientID = None \<longrightarrow>
      (\<exists>q s1 m1. GetLimiter clientID maxTokens0 refillRate0 t0 (s, m) = (q, s1, m1) \<and>
         GetLimiter clientID maxTokens' refillRate' now (s1, m1) = (q, s1, m1) \<and>
         maxTokens (cells m1 q) = maxTokens0 \<and> refillRate (cells m1 q) = refillRate0))"
proof (intro conjI impI)
  assume "limiters s clientID = Some p"
  then show "GetLimiter clientID maxTokens' refillRate' now (s, m) = (p, s, m)"
    by (simp add: GetLimiter_def)
next
  assume unseen: "limiters s clientID = None"
  let ?l = "\<lparr>tokens = maxTokens0, maxTokens = maxTokens0,
             refillRate = refillRate0, lastRefillTime = t0\<rparr>"
  let ?s1 = "s\<lparr>limiters := (limiters s)(clientID \<mapsto> brk m)\<rparr>"
  let ?m1 = "m\<lparr>cells := (cells m)(brk m := ?l), brk := Suc (brk m)\<rparr>"
  from unseen have "GetLimiter clientID maxTokens0 refillRate0 t0 (s, m) = (brk m, ?s1, ?m1)"
    by (rule GetLimiter_new_key)
  moreover have "GetLimiter clientID maxTokens' refillRate' now (?s1, ?m1) = (brk m, ?s1, ?m1)"
    by (simp add: GetLimiter_def)
  moreover have "maxTokens (cells ?m1 (brk m)) = maxTokens0"
    "refillRate (cells ?m1 (brk m)) = refillRate0"
    by simp_all
  ultimately show "\<exists>q s1 m1.
      GetLimiter clientID maxTokens0 refillRate0 t0 (s, m) = (q, s1, m1) \<and>
      GetLimiter clientID maxTokens' refillRate' now (s1, m1) = (q, s1, m1) \<and>
      maxTokens (cells m1 q) = maxTokens0 \<and> refillRate (cells m1 q) = refillRate0"
    by blast
qed

theorem GetLimiter_known_key_witness:
  "limiters \<lparr>limiters = [''10.0.0.1'' \<mapsto> 0]\<rparr> ''10.0.0.1'' = Some 0 \<and>
   GetLimiter ''10.0.0.1'' 99 5 777 (\<lparr>limiters = [''10.0.0.1'' \<mapsto> 0]\<rparr>, fresh_memory\<lparr>brk := 1\<rparr>)
     = (0, \<lparr>limiters = [''10.0.0.1'' \<mapsto> 0]\<rparr>, fresh_memory\<lparr>brk := 1\<rparr>) \<and>
   limiters NewRateLimiterStore ''10.0.0.1'' = None \<and>
   (\<exists>q s1 m1.
      GetLimiter ''10.0.0.1'' 3 1000000000 0 (NewRateLimiterStore, fresh_memory) = (q, s1, m1) \<and>
      GetLimiter ''10.0.0.1'' 99 5 777 (s1, m1) = (q, s1, m1) \<and>
      maxTokens (cells m1 q) = 3 \<and> refillRate (cells m1 q) = 1000000000)"
proof -
  have h1: "limiters \<lparr>limiters = [''10.0.0.1'' \<mapsto> 0]\<rparr> ''10.0.0.1'' = Some 0"
    by simp
  have h2: "limiters NewRateLimiterStore ''10.0.0.1'' = None"
    by (simp add: NewRateLimiterStore_def)
  from h1 GetLimiter_known_key
    [of "\<lparr>limiters = [''10.0.0.1'' \<mapsto> 0]\<rparr>" "''10.0.0.1''" 0 99 5 777 "fresh_memory\<lparr>brk := 1\<rparr>"]
  have a: "GetLimiter ''10.0.0.1'' 99 5 777
             (\<lparr>limiters = [''10.0.0.1'' \<mapsto> 0]\<rparr>, fresh_memory\<lparr>brk := 1\<rparr>)
     = (0, \<lparr>limiters = [''10.0.0.1'' \<mapsto> 0]\<rparr>, fresh_memory\<lparr>brk := 1\<rparr>)"
    by simp
  from h2 GetLimiter_known_key
    [of NewRateLimiterStore "''10.0.0.1''" 0 99 5 777 fresh_memory 3 1000000000 0]
  have b: "\<exists>q s1 m1.
      GetLimiter ''10.0.0.1'' 3 1000000000 0 (NewRateLimiterStore, fresh_memory) = (q, s1, m1) \<and>
      GetLimiter ''10.0.0.1'' 99 5 777 (s1, m1) = (q, s1, m1) \<and>
      maxTokens (cells m1 q) = 3 \<and> refillRate (cells m1 q) = 1000000000"
    by simp
  from h1 a h2 b show ?thesis by blast
qed

end
